theory Spec2Isabelle
  imports Complex_Main
begin

section \<open>Fisher iris visualisation: the data side of the script\<close>

text \<open>
  The development follows \<^verbatim>\<open>scripts/fisher_iris_visualization.py\<close>. Python exceptions
  are values of the type \<open>error\<close>; a function that may raise returns \<open>error + 'a\<close>.
\<close>

datatype error = IndexError | LinAlgError | ValueError | ReferenceError

subsection \<open>Python primitives used by the script\<close>

text \<open>
  \<^verbatim>\<open>s.split(sep)\<close> with a one-character separator: the string is cut at every
  occurrence of the separator; \<open>n\<close> occurrences give \<open>n + 1\<close> pieces, empty pieces included.
\<close>

fun py_split :: "char \<Rightarrow> string \<Rightarrow> string list" where
  "py_split sep [] = [[]]"
| "py_split sep (c # cs) =
     (if c = sep then [] # py_split sep cs
      else (case py_split sep cs of
              [] \<Rightarrow> [[c]]
            | p # ps \<Rightarrow> (c # p) # ps))"

text \<open>
  \<^verbatim>\<open>xs[i]\<close> on a Python list: a negative index counts from the end, an index out of
  range raises \<^verbatim>\<open>IndexError\<close>. \<open>py_pos n i\<close> is the position that the index \<open>i\<close>
  denotes in a list of length \<open>n\<close>.
\<close>

definition py_pos :: "nat \<Rightarrow> int \<Rightarrow> error + nat" where
  "py_pos n i =
     (let j = (if i < 0 then int n + i else i)
      in if 0 \<le> j \<and> j < int n then Inr (nat j) else Inl IndexError)"

definition py_index :: "'a list \<Rightarrow> int \<Rightarrow> error + 'a" where
  "py_index xs i = (case py_pos (length xs) i of Inl e \<Rightarrow> Inl e | Inr p \<Rightarrow> Inr (xs ! p))"

subsection \<open>The label loop of \<open>load_iris\<close> (manual fallback)\<close>

text \<open>
  \<^verbatim>\<open>
  labels, idx = [], 0
  for i, label in enumerate(iris_data[:, 4]):
      label = label.split('-')[1]
      if label not in labels:
          labels.append(label)
          idx += 1
      y[i] = idx - 1
  \<close>
  The loop state is \<open>(labels, idx, y)\<close>; \<open>y\<close> is the preallocated target vector, written
  at position \<open>i\<close> in iteration \<open>i\<close>.
\<close>

definition label_name :: "string \<Rightarrow> error + string" where
  "label_name field = py_index (py_split CHR ''-'' field) 1"

text \<open>
  The class name as the specification words it: everything after the first hyphen of the
  field.
\<close>

definition after_first_hyphen :: "string \<Rightarrow> string" where
  "after_first_hyphen field = tl (dropWhile (\<lambda>c. c \<noteq> CHR ''-'') field)"

fun label_loop :: "nat \<Rightarrow> string list \<Rightarrow> string list \<times> int \<times> int list
                     \<Rightarrow> error + (string list \<times> int \<times> int list)" where
  "label_loop i [] st = Inr st"
| "label_loop i (field # rest) (labels, idx, y) =
     (case label_name field of
        Inl e \<Rightarrow> Inl e
      | Inr label \<Rightarrow>
          (if label \<notin> set labels
           then label_loop (Suc i) rest (labels @ [label], idx + 1, y[i := (idx + 1) - 1])
           else label_loop (Suc i) rest (labels, idx, y[i := idx - 1])))"

text \<open>
  \<open>load_iris_targets y0 label_column\<close> is lines 46 to 55: \<open>y0\<close> is the content of the freshly
  allocated (uninitialised) vector \<open>y\<close>, one entry per row; the result is \<open>(labels, y)\<close>.
\<close>

definition load_iris_targets :: "int list \<Rightarrow> string list \<Rightarrow> error + (string list \<times> int list)" where
  "load_iris_targets y0 label_column =
     (case label_loop 0 label_column ([], 0, y0) of
        Inl e \<Rightarrow> Inl e
      | Inr (labels, idx, y) \<Rightarrow> Inr (labels, y))"

text \<open>
  The class names of a column in the order of their first occurrence, and the step by
  which the loop extends \<open>labels\<close>.
\<close>

definition first_seen :: "'a list \<Rightarrow> 'a list" where
  "first_seen xs = rev (remdups (rev xs))"

definition note_name :: "string list \<Rightarrow> string \<Rightarrow> string list" where
  "note_name labels name = (if name \<in> set labels then labels else labels @ [name])"

subsection \<open>NumPy arrays and the library calls of \<open>PCA\<close>\<close>

text \<open>
  Numbers are exact reals: rounding, infinities and \<^verbatim>\<open>nan\<close> are outside the model.
  A NumPy array carries its shape. \<open>Array2 c rows\<close> is a two-dimensional array with
  \<open>length rows\<close> rows and \<open>c\<close> columns (the column count is kept so that an array without
  rows still has a width); \<open>Array1\<close> is a vector and \<open>Array0\<close> a 0-dimensional array.
\<close>

datatype ndarray = Array0 real | Array1 "real list" | Array2 nat "real list list"

fun nrows :: "ndarray \<Rightarrow> nat" where
  "nrows (Array2 c rows) = length rows"
| "nrows _ = 0"

fun ncols :: "ndarray \<Rightarrow> nat" where
  "ncols (Array2 c rows) = c"
| "ncols _ = 0"

fun rows_of :: "ndarray \<Rightarrow> real list list" where
  "rows_of (Array2 c rows) = rows"
| "rows_of _ = []"

text \<open>The shape invariant of a two-dimensional array: every row has \<open>c\<close> entries.\<close>

fun is_matrix :: "nat \<Rightarrow> nat \<Rightarrow> ndarray \<Rightarrow> bool" where
  "is_matrix n d (Array2 c rows) = (c = d \<and> length rows = n \<and> list_all (\<lambda>r. length r = d) rows)"
| "is_matrix n d _ = False"

text \<open>\<^verbatim>\<open>a.T\<close> of a two-dimensional array.\<close>

fun transpose_T :: "ndarray \<Rightarrow> ndarray" where
  "transpose_T (Array2 c rows) = Array2 (length rows) (map (\<lambda>j. map (\<lambda>r. r ! j) rows) [0..<c])"
| "transpose_T a = a"

definition dot_vec :: "real list \<Rightarrow> real list \<Rightarrow> real" where
  "dot_vec u v = sum_list (map2 (*) u v)"

text \<open>
  The matrix product of two conformable two-dimensional arrays, and \<^verbatim>\<open>np.dot\<close>, which
  raises \<^verbatim>\<open>ValueError\<close> when the shapes are not aligned.
\<close>

definition matmul :: "ndarray \<Rightarrow> ndarray \<Rightarrow> ndarray" where
  "matmul a b = Array2 (ncols b) (map (\<lambda>r. map (dot_vec r) (rows_of (transpose_T b))) (rows_of a))"

definition np_dot :: "ndarray \<Rightarrow> ndarray \<Rightarrow> error + ndarray" where
  "np_dot a b = (if ncols a = nrows b then Inr (matmul a b) else Inl ValueError)"

text \<open>\<^verbatim>\<open>data.mean(axis=0)\<close>: the mean of every column.\<close>

definition mean_axis0 :: "ndarray \<Rightarrow> real list" where
  "mean_axis0 a = map (\<lambda>col. sum_list col / real (length col)) (rows_of (transpose_T a))"

text \<open>\<^verbatim>\<open>data -= v\<close> with a vector \<open>v\<close> broadcast over the rows.\<close>

definition isub_rows :: "ndarray \<Rightarrow> real list \<Rightarrow> ndarray" where
  "isub_rows a v = Array2 (ncols a) (map (\<lambda>r. map2 (-) r v) (rows_of a))"

text \<open>\<^verbatim>\<open>c.squeeze()\<close>: axes of length one are removed.\<close>

definition squeeze :: "ndarray \<Rightarrow> ndarray" where
  "squeeze a =
     (case a of
        Array2 c rows \<Rightarrow>
          (if length rows = 1 \<and> c = 1 then Array0 (hd (hd rows))
           else if length rows = 1 then Array1 (hd rows)
           else if c = 1 then Array1 (map hd rows)
           else a)
      | Array1 v \<Rightarrow> (if length v = 1 then Array0 (hd v) else a)
      | Array0 x \<Rightarrow> a)"

text \<open>
  \<^verbatim>\<open>np.cov(m, rowvar=False)\<close>, after NumPy 1.x:
  \<^verbatim>\<open>
  X = array(m, ndmin=2, dtype=dtype)
  if not rowvar and X.shape[0] != 1:
      X = X.T
  if X.shape[0] == 0:
      return np.array([]).reshape(0, 0)
  ddof = 1
  avg, w_sum = average(X, axis=1, weights=None, returned=True)
  fact = X.shape[1] - ddof
  if fact <= 0:
      warnings.warn("Degrees of freedom <= 0 for slice", RuntimeWarning)
      fact = 0.0
  X -= avg[:, None]
  c = dot(X, X.T.conj())
  c *= np.true_divide(1, fact)
  return c.squeeze()
  \<close>
  \<open>X\<close> is a copy, so the argument is not modified. The rows of \<open>X\<close> are the variables.
  A single-row argument is not transposed and thus counts as one variable. With one
  variable the product is 1-by-1 and \<^verbatim>\<open>squeeze\<close> returns a 0-dimensional array. Where
  \<open>fact\<close> is \<open>0\<close> NumPy multiplies by infinity; the model has no such value (in HOL
  \<open>1 / 0 = 0\<close>), so the entries are meaningless there. For an argument with at least one
  row this happens only for a 1-by-1 argument.
\<close>

definition np_cov :: "ndarray \<Rightarrow> ndarray" where
  "np_cov m =
     (let X = (if nrows m \<noteq> 1 then transpose_T m else m) in
      if nrows X = 0 then Array2 0 []
      else
        let avg = map (\<lambda>v. sum_list v / real (length v)) (rows_of X);
            fact = int (ncols X) - 1;
            fact' = (if fact \<le> 0 then 0 else real_of_int fact);
            Xc = Array2 (ncols X) (map2 (\<lambda>v a. map (\<lambda>x. x - a) v) (rows_of X) avg);
            c = matmul Xc (transpose_T Xc)
        in squeeze (Array2 (ncols c) (map (map (\<lambda>x. x * (1 / fact'))) (rows_of c))))"

text \<open>
  \<^verbatim>\<open>np.linalg.eigh(a)\<close> rejects an array of fewer than two dimensions and a non-square
  matrix with \<^verbatim>\<open>LinAlgError\<close>, and hands a square matrix to LAPACK. The LAPACK routine
  cannot be computed in exact arithmetic and is a parameter \<open>solver\<close>: it may fail,
  or return the eigenvalues and the matrix whose columns are the eigenvectors.
\<close>

type_synonym solver = "real list list \<Rightarrow> error + (real list \<times> real list list)"

definition eigh :: "solver \<Rightarrow> ndarray \<Rightarrow> error + (real list \<times> ndarray)" where
  "eigh solver a =
     (case a of
        Array2 c rows \<Rightarrow>
          (if length rows = c
           then (case solver rows of
                   Inl e \<Rightarrow> Inl e
                 | Inr (V, E) \<Rightarrow> Inr (V, Array2 c E))
           else Inl LinAlgError)
      | _ \<Rightarrow> Inl LinAlgError)"

text \<open>
  What LAPACK delivers for a \<open>d\<close>-by-\<open>d\<close> matrix when it succeeds: \<open>d\<close> eigenvalues and a
  \<open>d\<close>-by-\<open>d\<close> matrix. \<open>solver_ok solver R\<close> says that the solver succeeds on \<open>R\<close> in this way.
\<close>

definition solver_ok :: "solver \<Rightarrow> real list list \<Rightarrow> bool" where
  "solver_ok solver R \<longleftrightarrow>
     (case solver R of
        Inl e \<Rightarrow> False
      | Inr (V, E) \<Rightarrow> length V = length R \<and> is_matrix (length R) (length R) (Array2 (length R) E))"

text \<open>
  \<^verbatim>\<open>np.argsort(V)\<close>: the indices that sort \<open>V\<close> ascending. Equal entries are kept in index
  order here (NumPy's sort of a short array is an insertion sort).
\<close>

definition argsort :: "real list \<Rightarrow> nat list" where
  "argsort V = map snd (sort_key fst (zip V [0..<length V]))"

text \<open>\<^verbatim>\<open>E[:, idx]\<close> with an index array: an index beyond the columns raises \<^verbatim>\<open>IndexError\<close>.\<close>

definition take_columns :: "ndarray \<Rightarrow> nat list \<Rightarrow> error + ndarray" where
  "take_columns a idx =
     (if list_all (\<lambda>j. j < ncols a) idx
      then Inr (Array2 (length idx) (map (\<lambda>r. map (\<lambda>j. r ! j) idx) (rows_of a)))
      else Inl IndexError)"

text \<open>
  The slice \<^verbatim>\<open>xs[:k]\<close>: \<^verbatim>\<open>None\<close> keeps everything, a non-negative \<open>k\<close> keeps the first
  \<open>k\<close> entries (all of them when \<open>k\<close> exceeds the length), a negative \<open>k\<close> drops the last
  \<open>-k\<close> entries.
\<close>

definition slice_to :: "int option \<Rightarrow> 'a list \<Rightarrow> 'a list" where
  "slice_to k xs =
     (case k of
        None \<Rightarrow> xs
      | Some k \<Rightarrow> (if 0 \<le> k then take (nat k) xs else take (length xs - nat (- k)) xs))"

text \<open>\<^verbatim>\<open>E[:, :k]\<close>.\<close>

definition slice_columns :: "ndarray \<Rightarrow> int option \<Rightarrow> ndarray" where
  "slice_columns a k = Array2 (length (slice_to k [0..<ncols a])) (map (slice_to k) (rows_of a))"

subsection \<open>\<open>PCA\<close>\<close>

text \<open>
  \<^verbatim>\<open>
  def PCA(data, num_components=None):
      data -= data.mean(axis=0)
      R = np.cov(data, rowvar=False)
      V, E = np.linalg.eigh(R)
      idx = np.argsort(V)[::-1]
      E = E[:, idx]
      V = V[idx]
      E = E[:, :num_components]
      return np.dot(E.T, data.T).T, V, E
  \<close>
  The first statement writes into the caller's array, so the model returns the final
  content of that array together with the outcome: an error, or the triple of the
  projected data, the eigenvalues and the basis.
\<close>

definition PCA :: "solver \<Rightarrow> ndarray \<Rightarrow> int option \<Rightarrow> ndarray \<times> (error + (ndarray \<times> real list \<times> ndarray))" where
  "PCA solver data num_components =
     (let data1 = isub_rows data (mean_axis0 data);
          R = np_cov data1
      in (data1,
          case eigh solver R of
            Inl e \<Rightarrow> Inl e
          | Inr (V0, E0) \<Rightarrow>
              let idx = rev (argsort V0) in
              (case take_columns E0 idx of
                 Inl e \<Rightarrow> Inl e
               | Inr E1 \<Rightarrow>
                   let V = map (\<lambda>j. V0 ! j) idx;
                       E = slice_columns E1 num_components
                   in (case np_dot (transpose_T E) (transpose_T data1) of
                         Inl e \<Rightarrow> Inl e
                       | Inr P \<Rightarrow> Inr (transpose_T P, V, E)))))"

text \<open>
  A solver for the examples: it solves the 2-by-2 diagonal matrices, with the eigenvalues
  ascending as LAPACK returns them, and fails on every other matrix.
\<close>

definition diag2_solver :: solver where
  "diag2_solver R =
     (case R of
        [[a, b], [c, d]] \<Rightarrow>
          (if b = 0 \<and> c = 0
           then (if a \<le> d then Inr ([a, d], [[1, 0], [0, 1]])
                 else Inr ([d, a], [[0, 1], [1, 0]]))
           else Inl LinAlgError)
      | _ \<Rightarrow> Inl LinAlgError)"

subsection \<open>The manual fallback of \<open>load_iris\<close>\<close>

text \<open>
  \<^verbatim>\<open>
  iris_data = np.genfromtxt(path, dtype='str', delimiter=',')
  X = iris_data[:, :4].astype(dtype=float)
  y = np.ndarray((X.shape[0],), dtype=int)
  ... the label loop ...
  X = PCA(X, 3)[0]
  return X, y, labels
  \<close>
  Reading the file and converting the four numeric columns is not modelled: the fallback
  starts from the numeric array \<open>X\<close> and the label column \<^verbatim>\<open>iris_data[:, 4]\<close>.
\<close>

definition load_iris_fallback ::
  "solver \<Rightarrow> int list \<Rightarrow> ndarray \<Rightarrow> string list \<Rightarrow> error + (ndarray \<times> int list \<times> string list)" where
  "load_iris_fallback solver y0 X label_column =
     (case load_iris_targets y0 label_column of
        Inl e \<Rightarrow> Inl e
      | Inr (labels, y) \<Rightarrow>
          (case snd (PCA solver X (Some 3)) of
             Inl e \<Rightarrow> Inl e
           | Inr (P, V, E) \<Rightarrow> Inr (P, y, labels)))"

subsection \<open>\<open>create_scatter\<close>\<close>
















subsection \<open>Equality up to the sign of each axis\<close>

text \<open>
  The eigenvectors that LAPACK returns are determined up to sign. \<open>column a j\<close> is column
  \<open>j\<close> of a two-dimensional array. Two answers of the eigen solver for the same matrix
  agree up to sign when both fail alike, or both deliver the same eigenvalues and
  matrices of the documented shape whose columns are equal or negated, column by column.
  Two outcomes of \<open>PCA\<close> agree up to sign when both raise the same error, or both return
  the same eigenvalues and arrays of equal shape such that on every axis the column of
  the projected data and the column of the basis are both equal or both negated.
\<close>

definition column :: "ndarray \<Rightarrow> nat \<Rightarrow> real list" where
  "column a j = map (\<lambda>r. r ! j) (rows_of a)"

definition answers_up_to_sign ::
  "nat \<Rightarrow> error + (real list \<times> real list list) \<Rightarrow> error + (real list \<times> real list list) \<Rightarrow> bool" where
  "answers_up_to_sign d a1 a2 \<longleftrightarrow>
     (case a1 of
        Inl e1 \<Rightarrow> a2 = Inl e1
      | Inr (V1, E1) \<Rightarrow>
          (case a2 of
             Inl e2 \<Rightarrow> False
           | Inr (V2, E2) \<Rightarrow>
               V2 = V1 \<and> length V1 = d
               \<and> is_matrix d d (Array2 d E1) \<and> is_matrix d d (Array2 d E2)
               \<and> list_all (\<lambda>j. column (Array2 d E2) j = column (Array2 d E1) j
                               \<or> column (Array2 d E2) j = map uminus (column (Array2 d E1) j))
                     [0..<d]))"

definition results_up_to_sign ::
  "error + (ndarray \<times> real list \<times> ndarray) \<Rightarrow> error + (ndarray \<times> real list \<times> ndarray) \<Rightarrow> bool" where
  "results_up_to_sign r1 r2 \<longleftrightarrow>
     (case r1 of
        Inl e1 \<Rightarrow> r2 = Inl e1
      | Inr (P1, V1, B1) \<Rightarrow>
          (case r2 of
             Inl e2 \<Rightarrow> False
           | Inr (P2, V2, B2) \<Rightarrow>
               V2 = V1
               \<and> nrows P2 = nrows P1 \<and> ncols P2 = ncols P1
               \<and> nrows B2 = nrows B1 \<and> ncols B2 = ncols B1 \<and> ncols P1 = ncols B1
               \<and> list_all (\<lambda>j. (column P2 j = column P1 j \<and> column B2 j = column B1 j)
                               \<or> (column P2 j = map uminus (column P1 j)
                                   \<and> column B2 j = map uminus (column B1 j)))
                     [0..<ncols B1]))"

text \<open>
  A second solver for the examples: as \<open>diag2_solver\<close>, with the eigenvector of the larger
  eigenvalue negated.
\<close>

definition diag2_solver_neg :: solver where
  "diag2_solver_neg R =
     (case R of
        [[a, b], [c, d]] \<Rightarrow>
          (if b = 0 \<and> c = 0
           then (if a \<le> d then Inr ([a, d], [[1, 0], [0, - 1]])
                 else Inr ([d, a], [[0, - 1], [1, 0]]))
           else Inl LinAlgError)
      | _ \<Rightarrow> Inl LinAlgError)"

section \<open>Properties of the label loop\<close>

lemma py_split_not_Nil: "py_split sep s \<noteq> []"
  by (induction s) (auto split: list.splits)

lemma hd_py_split: "hd (py_split sep s) = takeWhile (\<lambda>c. c \<noteq> sep) s"
  by (induction s) (auto split: list.splits simp: py_split_not_Nil)

lemma tl_py_split:
  "tl (py_split sep s) =
     (if sep \<in> set s then py_split sep (tl (dropWhile (\<lambda>c. c \<noteq> sep) s)) else [])"
  by (induction s) (auto split: list.splits simp: py_split_not_Nil)

lemma label_name_eq:
  "label_name field =
     (if CHR ''-'' \<in> set field
      then Inr (takeWhile (\<lambda>c. c \<noteq> CHR ''-'') (after_first_hyphen field))
      else Inl IndexError)"
proof -
  let ?h = "CHR ''-''"
  obtain p ps where ps: "py_split ?h field = p # ps"
    using py_split_not_Nil[of ?h field] by (cases "py_split ?h field") auto
  have t: "ps = (if ?h \<in> set field then py_split ?h (after_first_hyphen field) else [])"
    using tl_py_split[of ?h field] ps by (simp add: after_first_hyphen_def)
  show ?thesis
  proof (cases "?h \<in> set field")
    case True
    obtain q qs where q: "py_split ?h (after_first_hyphen field) = q # qs"
      using py_split_not_Nil[of ?h "after_first_hyphen field"]
      by (cases "py_split ?h (after_first_hyphen field)") auto
    have "q = takeWhile (\<lambda>c. c \<noteq> ?h) (after_first_hyphen field)"
      using hd_py_split[of ?h "after_first_hyphen field"] q by simp
    then show ?thesis
      using True ps t q by (simp add: label_name_def py_index_def py_pos_def)
  next
    case False
    then show ?thesis
      using t ps by (simp add: label_name_def py_index_def py_pos_def)
  qed
qed

lemma first_seen_snoc: "first_seen (xs @ [x]) = note_name (first_seen xs) x"
  by (simp add: first_seen_def note_name_def)

lemma foldl_note_name: "foldl note_name [] names = first_seen names"
proof (induction names rule: rev_induct)
  case Nil
  then show ?case by (simp add: first_seen_def)
next
  case (snoc x xs)
  then show ?case by (simp add: first_seen_snoc)
qed

text \<open>
  What the loop computes when every field has a class name: \<open>labels\<close> ends as the names in
  first-seen order, and \<open>y[i]\<close> is the number of distinct names in rows \<open>0\<close> to \<open>i\<close>, less
  one. That is the index of the name of row \<open>i\<close> only when no later-seen name precedes
  row \<open>i\<close>.
\<close>

lemma label_loop_computes:
  assumes "map label_name col = map Inr names"
    and "idx = int (length labels)" and "i + length col \<le> length y"
  shows "\<exists>y'. label_loop i col (labels, idx, y)
            = Inr (foldl note_name labels names, int (length (foldl note_name labels names)), y')
          \<and> length y' = length y
          \<and> (\<forall>p < i. y' ! p = y ! p)
          \<and> (\<forall>j < length names.
                y' ! (i + j) = int (length (foldl note_name labels (take (Suc j) names))) - 1)"
  using assms
proof (induction col arbitrary: names i labels idx y)
  case Nil
  then show ?case by simp
next
  case (Cons field rest)
  obtain name names' where names: "names = name # names'"
    and f: "label_name field = Inr name" and r: "map label_name rest = map Inr names'"
    using Cons.prems(1) by (cases names) auto
  let ?labels = "note_name labels name"
  let ?y = "y[i := int (length ?labels) - 1]"
  have step: "label_loop i (field # rest) (labels, idx, y)
                = label_loop (Suc i) rest (?labels, int (length ?labels), ?y)"
    using f Cons.prems(2) by (simp add: note_name_def add.commute)
  have "Suc i + length rest \<le> length ?y" using Cons.prems(3) by simp
  from Cons.IH[OF r refl this] obtain y' where
    res: "label_loop (Suc i) rest (?labels, int (length ?labels), ?y)
            = Inr (foldl note_name ?labels names', int (length (foldl note_name ?labels names')), y')"
    and len: "length y' = length ?y"
    and before: "\<forall>p < Suc i. y' ! p = ?y ! p"
    and at: "\<forall>j < length names'.
                y' ! (Suc i + j) = int (length (foldl note_name ?labels (take (Suc j) names'))) - 1"
    by blast
  have i: "i < length y" using Cons.prems(3) by simp
  have "y' ! (i + j) = int (length (foldl note_name labels (take (Suc j) names))) - 1"
    if "j < length names" for j
  proof (cases j)
    case 0
    then show ?thesis using before i names by simp
  next
    case (Suc j')
    then show ?thesis using at that names by simp
  qed
  moreover have "\<forall>p < i. y' ! p = y ! p" using before by simp
  ultimately show ?case using step res len names by simp
qed

lemma load_iris_targets_computes:
  assumes "map label_name col = map Inr names" and "length y0 = length col"
  shows "\<exists>y. load_iris_targets y0 col = Inr (first_seen names, y)
           \<and> length y = length names
           \<and> (\<forall>i < length names. y ! i = int (length (first_seen (take (Suc i) names))) - 1)"
proof -
  have "0 + length col \<le> length y0" using assms(2) by simp
  from label_loop_computes[OF assms(1) _ this, of 0 "[]"] obtain y' where
    "label_loop 0 col ([], 0, y0)
       = Inr (foldl note_name [] names, int (length (foldl note_name [] names)), y')"
    "length y' = length y0"
    "\<forall>j < length names. y' ! (0 + j) = int (length (foldl note_name [] (take (Suc j) names))) - 1"
    by auto
  moreover have "length names = length col" using assms(1) by (metis length_map)
  ultimately show ?thesis
    using assms(2) by (simp add: load_iris_targets_def foldl_note_name)
qed

lemma load_iris_fallback_targets:
  "load_iris_fallback solver y0 X col = Inr (P, y, labels) \<Longrightarrow> load_iris_targets y0 col = Inr (labels, y)"
  by (auto simp: load_iris_fallback_def split: sum.splits prod.splits)

text \<open>
  Claim C1, at an input with interleaved classes. The fourth row is of the first class,
  whose first-seen index is \<open>0\<close>; the loop stores \<open>idx - 1\<close>, the index of the class
  seen last, which is \<open>2\<close>. The content \<open>a, b, c, d\<close> of the fresh vector does not matter.
\<close>

theorem load_iris_targets_interleaved:
  "load_iris_targets [a, b, c, d] [''x-setosa'', ''x-versicolor'', ''x-virginica'', ''x-setosa'']
     = Inr ([''setosa'', ''versicolor'', ''virginica''], [0, 1, 2, 2])"
  by (simp add: load_iris_targets_def label_name_def py_index_def py_pos_def)

text \<open>
  Claim C2 as stated fails: for the field \<open>x-a-b\<close> the text after the first hyphen is
  \<open>a-b\<close>, but the loop works with \<open>a\<close>.
\<close>

theorem label_name_not_whole_rest:
  "label_name ''x-a-b'' = Inr ''a'' \<and> after_first_hyphen ''x-a-b'' = ''a-b''"
  by (simp add: label_name_def py_index_def py_pos_def after_first_hyphen_def)

text \<open>
  Claim C2, amended: for a field with a hyphen the class name is the text after the first
  hyphen up to the next hyphen, or up to the end of the field when there is no further
  hyphen; so it is the whole text after the first hyphen exactly when that text has no
  hyphen. A field without a hyphen raises \<^verbatim>\<open>IndexError\<close>.
\<close>

theorem label_name_second_piece:
  "(CHR ''-'' \<in> set field \<longrightarrow>
      label_name field = Inr (takeWhile (\<lambda>c. c \<noteq> CHR ''-'') (after_first_hyphen field))) \<and>
   (CHR ''-'' \<in> set field \<longrightarrow> CHR ''-'' \<notin> set (after_first_hyphen field) \<longrightarrow>
      label_name field = Inr (after_first_hyphen field)) \<and>
   (CHR ''-'' \<notin> set field \<longrightarrow> label_name field = Inl IndexError)"
proof -
  have "takeWhile (\<lambda>c. c \<noteq> CHR ''-'') r = r" if "CHR ''-'' \<notin> set r" for r
    using that by (auto simp: takeWhile_eq_all_conv)
  then show ?thesis by (simp add: label_name_eq)
qed

theorem label_name_second_piece_witness:
  "label_name ''Iris-setosa'' = Inr ''setosa'' \<and> label_name ''x-a-b'' = Inr ''a''
     \<and> label_name ''setosa'' = Inl IndexError"
proof -
  have 1: "CHR ''-'' \<in> set ''Iris-setosa''" by simp
  have 2: "CHR ''-'' \<notin> set (after_first_hyphen ''Iris-setosa'')"
    by (simp add: after_first_hyphen_def)
  have 3: "CHR ''-'' \<in> set ''x-a-b''" by simp
  have 4: "CHR ''-'' \<notin> set ''setosa''" by simp
  show ?thesis
    using 1 2 3 4 label_name_second_piece[of "''Iris-setosa''"]
      label_name_second_piece[of "''x-a-b''"] label_name_second_piece[of "''setosa''"]
    by (simp add: after_first_hyphen_def)
qed

section \<open>Shapes in \<open>PCA\<close>\<close>

lemma is_matrix_cases:
  "is_matrix n d a \<Longrightarrow>
     \<exists>rows. a = Array2 d rows \<and> length rows = n \<and> (\<forall>r\<in>set rows. length r = d)"
  by (cases a) (auto simp: list_all_iff)

lemma is_matrix_transpose: "is_matrix n d a \<Longrightarrow> is_matrix d n (transpose_T a)"
  by (cases a) (auto simp: list_all_iff)

lemma length_mean_axis0: "is_matrix n d a \<Longrightarrow> length (mean_axis0 a) = d"
  by (cases a) (auto simp: mean_axis0_def)

lemma is_matrix_isub_rows:
  "is_matrix n d a \<Longrightarrow> length v = d \<Longrightarrow> is_matrix n d (isub_rows a v)"
  by (cases a) (auto simp: isub_rows_def list_all_iff)

lemma is_matrix_centred: "is_matrix n d a \<Longrightarrow> is_matrix n d (isub_rows a (mean_axis0 a))"
  by (simp add: is_matrix_isub_rows length_mean_axis0)

lemma is_matrix_matmul:
  "is_matrix n d a \<Longrightarrow> is_matrix d m b \<Longrightarrow> is_matrix n m (matmul a b)"
  by (cases a; cases b) (auto simp: matmul_def list_all_iff)

lemma np_dot_shape:
  "is_matrix n d a \<Longrightarrow> is_matrix d m b \<Longrightarrow> \<exists>P. np_dot a b = Inr P \<and> is_matrix n m P"
  using is_matrix_matmul[of n d a m b]
  by (cases a; cases b) (auto simp: np_dot_def)

lemma np_cov_shape:
  assumes "is_matrix n d a" "2 \<le> n" "2 \<le> d"
  shows "\<exists>R. np_cov a = Array2 d R \<and> is_matrix d d (Array2 d R)"
proof -
  obtain rows where a: "a = Array2 d rows" "length rows = n" "\<forall>r\<in>set rows. length r = d"
    using is_matrix_cases[OF assms(1)] by blast
  show ?thesis using a assms(2,3)
    by (simp add: np_cov_def Let_def matmul_def squeeze_def list_all_iff)
qed

lemma np_cov_degenerate:
  assumes "is_matrix n d a" "1 \<le> n" "1 \<le> d" "n = 1 \<or> d = 1"
  shows "\<exists>x. np_cov a = Array0 x"
proof -
  obtain rows where a: "a = Array2 d rows" "length rows = n" "\<forall>r\<in>set rows. length r = d"
    using is_matrix_cases[OF assms(1)] by blast
  show ?thesis using a assms(2,3,4)
    by (auto simp add: np_cov_def Let_def matmul_def squeeze_def list_all_iff)
qed

lemma set_argsort: "set (argsort V) = {0..<length V}"
proof -
  have m: "map snd (zip V [0..<length V]) = [0..<length V]"
    by (rule map_snd_zip) simp
  have "set (argsort V) = set (map snd (zip V [0..<length V]))"
    unfolding argsort_def by (simp only: set_map set_sort)
  then show ?thesis by (simp only: m set_upt)
qed

lemma length_argsort: "length (argsort V) = length V"
  by (simp add: argsort_def)


lemma take_columns_shape:
  assumes "is_matrix n d a" "\<forall>j\<in>set idx. j < d"
  shows "\<exists>rows. take_columns a idx = Inr (Array2 (length idx) rows)
            \<and> is_matrix n (length idx) (Array2 (length idx) rows)"
proof -
  obtain rows where a: "a = Array2 d rows" "length rows = n" "\<forall>r\<in>set rows. length r = d"
    using is_matrix_cases[OF assms(1)] by blast
  show ?thesis using a assms(2)
    by (simp add: take_columns_def list_all_iff)
qed

lemma length_slice_to: "length (slice_to k xs) = length (slice_to k [0..<length xs])"
  by (simp add: slice_to_def split: option.splits)

lemma slice_columns_shape:
  assumes "is_matrix n d a"
  shows "is_matrix n (length (slice_to k [0..<d])) (slice_columns a k)"
proof -
  obtain rows where a: "a = Array2 d rows" "length rows = n" "\<forall>r\<in>set rows. length r = d"
    using is_matrix_cases[OF assms(1)] by blast
  have "length (slice_to k r) = length (slice_to k [0..<d])" if "r \<in> set rows" for r
    using that a(3) length_slice_to[of k r] by simp
  then show ?thesis using a
    by (simp add: slice_columns_def list_all_iff)
qed

lemma solver_ok_eigh:
  assumes "solver_ok solver R" "length R = d"
  shows "\<exists>V E. eigh solver (Array2 d R) = Inr (V, Array2 d E) \<and> length V = d
           \<and> is_matrix d d (Array2 d E)"
  using assms by (auto simp: solver_ok_def eigh_def split: sum.splits)

text \<open>
  The outcome of \<open>PCA\<close> for a matrix with at least two rows and two columns, when the
  solver delivers: the width of the result is the number of basis columns that the slice
  keeps.
\<close>

lemma PCA_returns_shape:
  assumes data: "is_matrix n d data" and n: "2 \<le> n" and d: "2 \<le> d"
    and sol: "solver_ok solver (rows_of (np_cov (isub_rows data (mean_axis0 data))))"
  shows "\<exists>P V E. snd (PCA solver data k) = Inr (P, V, E)
           \<and> is_matrix n (length (slice_to k [0..<d])) P \<and> length V = d
           \<and> is_matrix d (length (slice_to k [0..<d])) E"
proof -
  let ?data1 = "isub_rows data (mean_axis0 data)"
  let ?w = "length (slice_to k [0..<d])"
  have d1: "is_matrix n d ?data1" using data by (rule is_matrix_centred)
  obtain R where R: "np_cov ?data1 = Array2 d R" "is_matrix d d (Array2 d R)"
    using np_cov_shape[OF d1 n d] by blast
  have lenR: "length R = d" using R(2) by simp
  have "solver_ok solver R" using sol R(1) by simp
  then obtain V0 E0 where eg: "eigh solver (Array2 d R) = Inr (V0, Array2 d E0)"
    and V0: "length V0 = d" and E0: "is_matrix d d (Array2 d E0)"
    using solver_ok_eigh[OF _ lenR] by blast
  let ?idx = "rev (argsort V0)"
  have idx: "\<forall>j\<in>set ?idx. j < d" "length ?idx = d"
    using V0 by (simp_all add: set_argsort length_argsort)
  obtain E1 where E1: "take_columns (Array2 d E0) ?idx = Inr (Array2 d E1)"
    "is_matrix d d (Array2 d E1)"
    using take_columns_shape[OF E0 idx(1)] idx(2) by auto
  let ?E = "slice_columns (Array2 d E1) k"
  have E: "is_matrix d ?w ?E" using slice_columns_shape[OF E1(2)] .
  obtain P where P: "np_dot (transpose_T ?E) (transpose_T ?data1) = Inr P" "is_matrix ?w n P"
    using np_dot_shape[OF is_matrix_transpose[OF E] is_matrix_transpose[OF d1]] by blast
  have "snd (PCA solver data k) = Inr (transpose_T P, map (\<lambda>j. V0 ! j) ?idx, ?E)"
    using R(1) eg E1(1) P(1) by (simp add: PCA_def Let_def)
  moreover have "is_matrix n ?w (transpose_T P)" using is_matrix_transpose[OF P(2)] .
  moreover have "length (map (\<lambda>j. V0 ! j) ?idx) = d" using idx(2) by simp
  ultimately show ?thesis using E by blast
qed

text \<open>
  With a single row or a single column the covariance is 0-dimensional and \<open>eigh\<close>
  rejects it, whatever the solver and the number of components.
\<close>

lemma PCA_degenerate:
  assumes "is_matrix n d data" "1 \<le> n" "1 \<le> d" "n = 1 \<or> d = 1"
  shows "snd (PCA solver data k) = Inl LinAlgError"
proof -
  let ?data1 = "isub_rows data (mean_axis0 data)"
  have d1: "is_matrix n d ?data1" using assms(1) by (rule is_matrix_centred)
  obtain x where "np_cov ?data1 = Array0 x"
    using np_cov_degenerate[OF d1 assms(2,3,4)] by blast
  then show ?thesis by (simp add: PCA_def Let_def eigh_def)
qed

lemmas PCA_eval = PCA_def isub_rows_def mean_axis0_def np_cov_def matmul_def dot_vec_def
  squeeze_def eigh_def diag2_solver_def argsort_def take_columns_def slice_columns_def
  slice_to_def np_dot_def solver_ok_def Let_def

text \<open>
  Claim C3 as stated fails: a 3-by-1 matrix is not empty and \<open>k = 2\<close> exceeds its width,
  yet \<open>PCA\<close> raises \<^verbatim>\<open>LinAlgError\<close>.
\<close>

theorem PCA_single_column_wide_raises:
  "snd (PCA diag2_solver (Array2 1 [[1], [2], [3]]) (Some 2)) = Inl LinAlgError"
  by (simp add: PCA_eval upt_rec)

text \<open>
  Claim C3, amended: for every \<open>n\<close>-by-\<open>d\<close> matrix with \<open>n \<ge> 2\<close> and \<open>d \<ge> 2\<close> and every
  \<open>k > d\<close>, when the eigen solver succeeds on the covariance matrix, \<open>PCA\<close> raises no error
  and returns a projected matrix with \<open>n\<close> rows and \<open>d\<close> columns, all \<open>d\<close> eigenvalues and
  the full \<open>d\<close>-by-\<open>d\<close> basis.
\<close>

theorem PCA_more_components_than_columns:
  assumes "is_matrix n d data" and "2 \<le> n" and "2 \<le> d" and "int d < k"
    and "solver_ok solver (rows_of (np_cov (isub_rows data (mean_axis0 data))))"
  shows "\<exists>P V E. snd (PCA solver data (Some k)) = Inr (P, V, E)
           \<and> is_matrix n d P \<and> length V = d \<and> is_matrix d d E"
proof -
  have "length (slice_to (Some k) [0..<d]) = d"
    using assms(4) by (simp add: slice_to_def)
  then show ?thesis
    using PCA_returns_shape[OF assms(1,2,3,5), of "Some k"] by simp
qed

theorem PCA_more_components_than_columns_witness:
  "\<exists>P V E. snd (PCA diag2_solver (Array2 2 [[0, 0], [4, 0], [0, 2], [4, 2]]) (Some 3)) = Inr (P, V, E)
     \<and> is_matrix 4 2 P \<and> length V = 2 \<and> is_matrix 2 2 E"
proof -
  let ?data = "Array2 2 [[0, 0], [4, 0], [0, 2], [4, 2]]"
  have 1: "is_matrix 4 2 ?data" by simp
  have 2: "solver_ok diag2_solver (rows_of (np_cov (isub_rows ?data (mean_axis0 ?data))))"
    by (simp add: PCA_eval upt_rec)
  show ?thesis
    by (rule PCA_more_components_than_columns[OF 1 _ _ _ 2]) simp_all
qed

text \<open>
  Claim C5 as stated fails: for a 3-by-1 matrix and \<open>k = 1\<close> no projected matrix is
  returned, \<open>PCA\<close> raises \<^verbatim>\<open>LinAlgError\<close>.
\<close>

theorem PCA_single_column_raises:
  "snd (PCA diag2_solver (Array2 1 [[1], [2], [3]]) (Some 1)) = Inl LinAlgError"
  by (simp add: PCA_eval upt_rec)

text \<open>
  Claim C5, amended: for every \<open>n\<close>-by-\<open>d\<close> matrix with \<open>n \<ge> 2\<close> and \<open>d \<ge> 2\<close> and every \<open>k\<close>
  with \<open>1 \<le> k \<le> d\<close>, when the eigen solver succeeds on the covariance matrix, \<open>PCA\<close>
  returns a projected matrix with exactly \<open>n\<close> rows and \<open>k\<close> columns.
\<close>

theorem PCA_projected_shape:
  assumes "is_matrix n d data" and "2 \<le> n" and "2 \<le> d" and "1 \<le> k" and "k \<le> int d"
    and "solver_ok solver (rows_of (np_cov (isub_rows data (mean_axis0 data))))"
  shows "\<exists>P V E. snd (PCA solver data (Some k)) = Inr (P, V, E) \<and> is_matrix n (nat k) P"
proof -
  have "length (slice_to (Some k) [0..<d]) = nat k"
    using assms(4,5) by (simp add: slice_to_def)
  then show ?thesis
    using PCA_returns_shape[OF assms(1,2,3,6), of "Some k"] by auto
qed

theorem PCA_projected_shape_witness:
  "\<exists>P V E. snd (PCA diag2_solver (Array2 2 [[0, 0], [4, 0], [0, 2], [4, 2]]) (Some 1)) = Inr (P, V, E)
     \<and> is_matrix 4 (nat 1) P"
proof -
  let ?data = "Array2 2 [[0, 0], [4, 0], [0, 2], [4, 2]]"
  have 1: "is_matrix 4 2 ?data" by simp
  have 2: "solver_ok diag2_solver (rows_of (np_cov (isub_rows ?data (mean_axis0 ?data))))"
    by (simp add: PCA_eval upt_rec)
  show ?thesis
    by (rule PCA_projected_shape[OF 1 _ _ _ _ 2]) simp_all
qed



text \<open>
  Claim C9: the call leaves in the caller's array the centred data and nothing else: the
  array keeps its shape, and the entry in row \<open>i\<close> and column \<open>j\<close> is the original entry
  minus the mean of column \<open>j\<close>. This is so whether \<open>PCA\<close> returns or raises.
\<close>

theorem PCA_mutates_input:
  assumes "is_matrix n d data" and "i < n" and "j < d"
  shows "is_matrix n d (fst (PCA solver data k)) \<and>
         rows_of (fst (PCA solver data k)) ! i ! j
           = rows_of data ! i ! j - (\<Sum>r\<leftarrow>rows_of data. r ! j) / real n"
proof -
  obtain rows where a: "data = Array2 d rows" "length rows = n" "\<forall>r\<in>set rows. length r = d"
    using is_matrix_cases[OF assms(1)] by blast
  have f: "fst (PCA solver data k) = isub_rows data (mean_axis0 data)"
    by (simp add: PCA_def Let_def)
  have ri: "length (rows ! i) = d" using a assms(2) by simp
  have "rows_of (isub_rows data (mean_axis0 data)) ! i ! j
          = rows ! i ! j - mean_axis0 data ! j"
    using a assms(2,3) ri by (simp add: isub_rows_def mean_axis0_def)
  moreover have "mean_axis0 data ! j = (\<Sum>r\<leftarrow>rows. r ! j) / real n"
    using a assms(3) by (simp add: mean_axis0_def)
  ultimately show ?thesis
    using f a(1) is_matrix_centred[OF assms(1)] by simp
qed

theorem PCA_mutates_input_witness:
  "is_matrix 4 2 (fst (PCA diag2_solver (Array2 2 [[0, 0], [4, 0], [0, 2], [4, 2]]) (Some 1))) \<and>
   rows_of (fst (PCA diag2_solver (Array2 2 [[0, 0], [4, 0], [0, 2], [4, 2]]) (Some 1))) ! 1 ! 0 = 2"
proof -
  let ?data = "Array2 2 [[0, 0], [4, 0], [0, 2], [4, 2]]"
  have 1: "is_matrix 4 2 ?data" by simp
  have 2: "(1::nat) < 4" and 3: "(0::nat) < 2" by simp_all
  show ?thesis
    using PCA_mutates_input[OF 1 2 3, of diag2_solver "Some 1"] by simp
qed

section \<open>\<open>create_scatter\<close>\<close>







section \<open>\<open>PCA\<close> and the sign of the eigenvectors\<close>

lemma transpose_T_twice:
  assumes "is_matrix n d a"
  shows "transpose_T (transpose_T a) = a"
proof -
  obtain rows where a: "a = Array2 d rows" "length rows = n" "\<forall>r\<in>set rows. length r = d"
    using is_matrix_cases[OF assms] by blast
  have "map (\<lambda>i. map (\<lambda>c. c ! i) (map (\<lambda>j. map (\<lambda>r. r ! j) rows) [0..<d])) [0..<n] = rows"
  proof (rule nth_equalityI)
    show "length (map (\<lambda>i. map (\<lambda>c. c ! i) (map (\<lambda>j. map (\<lambda>r. r ! j) rows) [0..<d])) [0..<n]) = length rows"
      using a(2) by simp
  next
    fix i assume "i < length (map (\<lambda>i. map (\<lambda>c. c ! i) (map (\<lambda>j. map (\<lambda>r. r ! j) rows) [0..<d])) [0..<n])"
    then have i: "i < n" by simp
    then have "length (rows ! i) = d" using a(2,3) by simp
    then have "map (\<lambda>j. rows ! i ! j) [0..<d] = rows ! i"
      by (metis map_nth)
    then show "map (\<lambda>i. map (\<lambda>c. c ! i) (map (\<lambda>j. map (\<lambda>r. r ! j) rows) [0..<d])) [0..<n] ! i = rows ! i"
      using i a(2) by (simp add: comp_def)
  qed
  then show ?thesis using a by simp
qed

lemma dot_vec_uminus: "dot_vec (map uminus u) v = - dot_vec u v"
  unfolding dot_vec_def
proof (induction u arbitrary: v)
  case Nil
  then show ?case by simp
next
  case (Cons a u)
  then show ?case by (cases v) simp_all
qed

text \<open>
  The projection \<^verbatim>\<open>np.dot(E.T, data.T).T\<close>, column by column: column \<open>j\<close> holds the
  products of column \<open>j\<close> of the basis with the rows of the data.
\<close>

lemma projection_columns:
  assumes B: "is_matrix d w B" and X: "is_matrix n d X"
  shows "is_matrix n w (transpose_T (matmul (transpose_T B) (transpose_T X)))"
    and "j < w \<Longrightarrow> column (transpose_T (matmul (transpose_T B) (transpose_T X))) j
                     = map (dot_vec (column B j)) (rows_of X)"
proof -
  let ?M = "matmul (transpose_T B) (transpose_T X)"
  show sh: "is_matrix n w (transpose_T ?M)"
    using is_matrix_transpose[OF is_matrix_matmul[OF is_matrix_transpose[OF B] is_matrix_transpose[OF X]]] .
  obtain rowsB where b: "B = Array2 w rowsB" "length rowsB = d"
    using is_matrix_cases[OF B] by blast
  obtain rowsX where x: "X = Array2 d rowsX" "length rowsX = n"
    using is_matrix_cases[OF X] by blast
  have tt: "rows_of (transpose_T (transpose_T X)) = rowsX"
    using transpose_T_twice[OF X] x by simp
  have M: "?M = Array2 n (map (\<lambda>j. map (dot_vec (column B j)) rowsX) [0..<w])"
    using tt b x(2) by (simp add: matmul_def column_def x(1) comp_def)
  assume j: "j < w"
  have "column (transpose_T ?M) j = map (\<lambda>i. map (dot_vec (column B j)) rowsX ! i) [0..<n]"
    using j by (simp add: M column_def comp_def)
  also have "\<dots> = map (dot_vec (column B j)) rowsX"
    using x(2) by (metis length_map map_nth)
  finally show "column (transpose_T ?M) j = map (dot_vec (column B j)) (rows_of X)"
    using x by simp
qed

text \<open>Column \<open>j\<close> of the basis is the column of the solver's matrix that \<open>idx\<close> puts there.\<close>

lemma slice_to_nth: "j < length (slice_to k xs) \<Longrightarrow> slice_to k xs ! j = xs ! j"
  by (auto simp: slice_to_def split: option.splits if_splits)

lemma basis_columns:
  assumes E: "is_matrix d c (Array2 c E)" and idx: "length idx = c"
    and j: "j < length (slice_to k [0..<c])"
  shows "column (slice_columns (Array2 (length idx) (map (\<lambda>r. map (\<lambda>i. r ! i) idx) E)) k) j
           = column (Array2 c E) (idx ! j)"
proof -
  have jc: "j < c" using j by (auto simp: slice_to_def split: option.splits if_splits)
  have "slice_to k (map (\<lambda>i. r ! i) idx) ! j = r ! (idx ! j)" for r :: "real list"
  proof -
    have "length (slice_to k (map (\<lambda>i. r ! i) idx)) = length (slice_to k [0..<c])"
      using length_slice_to[of k "map (\<lambda>i. r ! i) idx"] idx by simp
    then show ?thesis using slice_to_nth[of j k "map (\<lambda>i. r ! i) idx"] j jc idx by simp
  qed
  then show ?thesis
    by (simp add: column_def slice_columns_def comp_def)
qed

text \<open>The outcome of \<open>PCA\<close> in terms of what the solver delivered.\<close>

lemma PCA_unfold:
  assumes X: "is_matrix n d data"
    and R: "np_cov (isub_rows data (mean_axis0 data)) = Array2 c R" and lenR: "length R = c"
    and s: "solver R = Inr (V0, E)" and V0: "length V0 = c" and E: "is_matrix c c (Array2 c E)"
  shows "snd (PCA solver data k) =
           (let idx = rev (argsort V0);
                B = slice_columns (Array2 (length idx) (map (\<lambda>r. map (\<lambda>i. r ! i) idx) E)) k
            in if c = d
               then Inr (transpose_T (matmul (transpose_T B) (transpose_T (isub_rows data (mean_axis0 data)))),
                         map (\<lambda>j. V0 ! j) idx, B)
               else Inl ValueError)"
proof -
  let ?data1 = "isub_rows data (mean_axis0 data)"
  let ?idx = "rev (argsort V0)"
  have d1: "is_matrix n d ?data1" using X by (rule is_matrix_centred)
  have eg: "eigh solver (Array2 c R) = Inr (V0, Array2 c E)"
    using s lenR by (simp add: eigh_def)
  have idx: "\<forall>j\<in>set ?idx. j < c" "length ?idx = c"
    using V0 by (simp_all add: set_argsort length_argsort)
  have tc: "take_columns (Array2 c E) ?idx = Inr (Array2 (length ?idx) (map (\<lambda>r. map (\<lambda>i. r ! i) ?idx) E))"
    using idx(1) by (simp add: take_columns_def list_all_iff)
  let ?B = "slice_columns (Array2 (length ?idx) (map (\<lambda>r. map (\<lambda>i. r ! i) ?idx) E)) k"
  have "nrows ?B = c" using E by (simp add: slice_columns_def)
  then have "ncols (transpose_T ?B) = c" by (simp add: slice_columns_def)
  moreover have "nrows (transpose_T ?data1) = d"
    using d1 by (cases ?data1) auto
  ultimately have dot: "np_dot (transpose_T ?B) (transpose_T ?data1)
        = (if c = d then Inr (matmul (transpose_T ?B) (transpose_T ?data1)) else Inl ValueError)"
    by (simp add: np_dot_def)
  show ?thesis
    using R eg tc dot by (simp add: PCA_def Let_def)
qed

lemma PCA_raises_without_matrix:
  assumes "\<forall>c R. np_cov (isub_rows data (mean_axis0 data)) = Array2 c R \<longrightarrow> length R \<noteq> c"
  shows "snd (PCA solver data k) = Inl LinAlgError"
  using assms
  by (cases "np_cov (isub_rows data (mean_axis0 data))") (simp_all add: PCA_def Let_def eigh_def)

lemma PCA_solver_error:
  assumes "np_cov (isub_rows data (mean_axis0 data)) = Array2 c R" and "solver R = Inl e"
  shows "snd (PCA solver data k) = (if length R = c then Inl e else Inl LinAlgError)"
  using assms by (simp add: PCA_def Let_def eigh_def)

text \<open>
  Claim C8: \<open>PCA\<close> takes nothing but its input, \<open>k\<close> and the answer of the eigen solver.
  For every input matrix and every \<open>k\<close>, two calls whose solver answers for the covariance
  matrix agree up to the sign of each eigenvector leave the same centred data in the
  caller's array and have outcomes that agree up to an independent sign per axis; with
  equal solver answers the outcomes are equal.
\<close>

theorem PCA_deterministic_up_to_sign:
  assumes X: "is_matrix n d data"
    and ans: "answers_up_to_sign (length (rows_of (np_cov (isub_rows data (mean_axis0 data)))))
                (solverA (rows_of (np_cov (isub_rows data (mean_axis0 data)))))
                (solverB (rows_of (np_cov (isub_rows data (mean_axis0 data)))))"
  shows "fst (PCA solverA data k) = fst (PCA solverB data k)
         \<and> results_up_to_sign (snd (PCA solverA data k)) (snd (PCA solverB data k))"
proof -
  let ?data1 = "isub_rows data (mean_axis0 data)"
  have d1: "is_matrix n d ?data1" using X by (rule is_matrix_centred)
  have same_data: "fst (PCA solverA data k) = fst (PCA solverB data k)"
    by (simp add: PCA_def Let_def)
  have "results_up_to_sign (snd (PCA solverA data k)) (snd (PCA solverB data k))"
  proof (cases "\<exists>c R. np_cov ?data1 = Array2 c R \<and> length R = c")
    case False
    then have "\<forall>c R. np_cov ?data1 = Array2 c R \<longrightarrow> length R \<noteq> c" by blast
    then show ?thesis
      using PCA_raises_without_matrix[of data] by (simp add: results_up_to_sign_def)
  next
    case True
    then obtain c R where R: "np_cov ?data1 = Array2 c R" and lenR: "length R = c" by blast
    have ans': "answers_up_to_sign c (solverA R) (solverB R)" using ans R lenR by simp
    show ?thesis
    proof (cases "solverA R")
      case (Inl e)
      then have "solverB R = Inl e" using ans' by (simp add: answers_up_to_sign_def)
      then show ?thesis
        using Inl PCA_solver_error[OF R] by (simp add: results_up_to_sign_def)
    next
      case (Inr a)
      obtain V0 E1 where a: "a = (V0, E1)" by (cases a)
      obtain E2 where s1: "solverA R = Inr (V0, E1)" and s2: "solverB R = Inr (V0, E2)"
        and V0: "length V0 = c"
        and E1: "is_matrix c c (Array2 c E1)" and E2: "is_matrix c c (Array2 c E2)"
        and cols: "\<forall>j<c. column (Array2 c E2) j = column (Array2 c E1) j
                        \<or> column (Array2 c E2) j = map uminus (column (Array2 c E1) j)"
        using ans' Inr a
        by (auto simp: answers_up_to_sign_def list_all_iff split: sum.splits)
      let ?idx = "rev (argsort V0)"
      let ?w = "length (slice_to k [0..<c])"
      let ?B1 = "slice_columns (Array2 (length ?idx) (map (\<lambda>r. map (\<lambda>i. r ! i) ?idx) E1)) k"
      let ?B2 = "slice_columns (Array2 (length ?idx) (map (\<lambda>r. map (\<lambda>i. r ! i) ?idx) E2)) k"
      let ?P1 = "transpose_T (matmul (transpose_T ?B1) (transpose_T ?data1))"
      let ?P2 = "transpose_T (matmul (transpose_T ?B2) (transpose_T ?data1))"
      have u1: "snd (PCA solverA data k)
                  = (if c = d then Inr (?P1, map (\<lambda>j. V0 ! j) ?idx, ?B1) else Inl ValueError)"
        using PCA_unfold[where solver=solverA, OF X R lenR s1 V0 E1, of k] by (simp add: Let_def)
      have u2: "snd (PCA solverB data k)
                  = (if c = d then Inr (?P2, map (\<lambda>j. V0 ! j) ?idx, ?B2) else Inl ValueError)"
        using PCA_unfold[where solver=solverB, OF X R lenR s2 V0 E2, of k] by (simp add: Let_def)
      show ?thesis
      proof (cases "c = d")
        case False
        then show ?thesis using u1 u2 by (simp add: results_up_to_sign_def)
      next
        case True
        have idx: "\<forall>j\<in>set ?idx. j < c" "length ?idx = c"
          using V0 by (simp_all add: set_argsort length_argsort)
        have t1: "is_matrix c c (Array2 (length ?idx) (map (\<lambda>r. map (\<lambda>i. r ! i) ?idx) E1))"
          using E1 idx(2) by (simp add: list_all_iff)
        have t2: "is_matrix c c (Array2 (length ?idx) (map (\<lambda>r. map (\<lambda>i. r ! i) ?idx) E2))"
          using E2 idx(2) by (simp add: list_all_iff)
        have B1: "is_matrix d ?w ?B1" using slice_columns_shape[OF t1, of k] True by simp
        have B2: "is_matrix d ?w ?B2" using slice_columns_shape[OF t2, of k] True by simp
        have P1: "is_matrix n ?w ?P1" using projection_columns(1)[OF B1 d1] .
        have P2: "is_matrix n ?w ?P2" using projection_columns(1)[OF B2 d1] .
        have shape: "nrows ?P2 = nrows ?P1 \<and> ncols ?P2 = ncols ?P1 \<and> nrows ?B2 = nrows ?B1
                \<and> ncols ?B2 = ncols ?B1 \<and> ncols ?P1 = ncols ?B1 \<and> ncols ?B1 = ?w"
          using is_matrix_cases[OF P1] is_matrix_cases[OF P2]
            is_matrix_cases[OF B1] is_matrix_cases[OF B2] by auto
        have axis: "(column ?P2 j = column ?P1 j \<and> column ?B2 j = column ?B1 j)
                    \<or> (column ?P2 j = map uminus (column ?P1 j)
                        \<and> column ?B2 j = map uminus (column ?B1 j))" if j: "j < ?w" for j
        proof -
          have jc: "j < c" using j by (auto simp: slice_to_def split: option.splits if_splits)
          then have ij: "?idx ! j < c" using idx by (metis nth_mem)
          have b1: "column ?B1 j = column (Array2 c E1) (?idx ! j)"
            using basis_columns[OF E1 idx(2) j] .
          have b2: "column ?B2 j = column (Array2 c E2) (?idx ! j)"
            using basis_columns[OF E2 idx(2) j] .
          have p1: "column ?P1 j = map (dot_vec (column ?B1 j)) (rows_of ?data1)"
            using projection_columns(2)[OF B1 d1 j] .
          have p2: "column ?P2 j = map (dot_vec (column ?B2 j)) (rows_of ?data1)"
            using projection_columns(2)[OF B2 d1 j] .
          from cols ij consider
            (same) "column (Array2 c E2) (?idx ! j) = column (Array2 c E1) (?idx ! j)"
            | (neg) "column (Array2 c E2) (?idx ! j) = map uminus (column (Array2 c E1) (?idx ! j))"
            by blast
          then show ?thesis
          proof cases
            case same
            then have "column ?B2 j = column ?B1 j" using b1 b2 by simp
            then show ?thesis using p1 p2 by simp
          next
            case neg
            then have n: "column ?B2 j = map uminus (column ?B1 j)" using b1 b2 by simp
            have "column ?P2 j = map uminus (column ?P1 j)"
              unfolding p1 p2 n by (simp add: dot_vec_uminus comp_def)
            then show ?thesis using n by simp
          qed
        qed
        show ?thesis
          unfolding u1 u2 using True shape axis
          by (simp add: results_up_to_sign_def list_all_iff)
      qed
    qed
  qed
  then show ?thesis using same_data by simp
qed

theorem PCA_deterministic_up_to_sign_witness:
  "fst (PCA diag2_solver (Array2 2 [[0, 0], [4, 0], [0, 2], [4, 2]]) (Some 1))
     = fst (PCA diag2_solver_neg (Array2 2 [[0, 0], [4, 0], [0, 2], [4, 2]]) (Some 1))
   \<and> results_up_to_sign
       (Inr (Array2 1 [[- 2], [2], [- 2], [2]], [16 / 3, 4 / 3], Array2 1 [[1], [0]]))
       (Inr (Array2 1 [[2], [- 2], [2], [- 2]], [16 / 3, 4 / 3], Array2 1 [[- 1], [0]]))"
proof -
  let ?data = "Array2 2 [[0, 0], [4, 0], [0, 2], [4, 2]]"
  let ?R = "rows_of (np_cov (isub_rows ?data (mean_axis0 ?data)))"
  have 1: "is_matrix 4 2 ?data" by simp
  have R: "?R = [[16 / 3, 0], [0, 4 / 3]]"
    by (simp add: PCA_eval upt_rec)
  have 2: "answers_up_to_sign (length ?R) (diag2_solver ?R) (diag2_solver_neg ?R)"
    unfolding R
    by (simp add: answers_up_to_sign_def diag2_solver_def diag2_solver_neg_def column_def upt_rec)
  have a: "snd (PCA diag2_solver ?data (Some 1))
             = Inr (Array2 1 [[- 2], [2], [- 2], [2]], [16 / 3, 4 / 3], Array2 1 [[1], [0]])"
    by (simp add: PCA_eval upt_rec)
  have b: "snd (PCA diag2_solver_neg ?data (Some 1))
             = Inr (Array2 1 [[2], [- 2], [2], [- 2]], [16 / 3, 4 / 3], Array2 1 [[- 1], [0]])"
    by (simp add: PCA_eval diag2_solver_neg_def upt_rec)
  show ?thesis
    using PCA_deterministic_up_to_sign[where solverA=diag2_solver and solverB=diag2_solver_neg, OF 1 2, of "Some 1"] a b by simp
qed

end
